theory Spec2Isabelle
  imports
    Main
    "HOL-Library.AList"
    "HOL-Library.Multiset"
    "HOL-Library.List_Lexorder"
    "HOL-Library.Product_Lexorder"
begin

section \<open>Text files and Python string primitives\<close>

text \<open>
  The session keeps its state in text files: the work-log \<^verbatim>\<open>temp\<close> and the report
  \<^verbatim>\<open>screening-output\<close>. A Python string is a sequence of code points, and a file
  opened in text mode is modelled by its decoded content. The literals of the source are
  ASCII; \<open>str\<close> gives the code points of one.
\<close>

type_synonym pystr = "int list"

definition str :: "string \<Rightarrow> pystr" where
  "str s = map of_char s"

definition LF :: int where
  "LF = 0x0A"

definition CR :: int where
  "CR = 0x0D"

definition SP :: int where
  "SP = 0x20"

definition TAB :: int where
  "TAB = 0x09"

text \<open>
  The whitespace at which \<^verbatim>\<open>str.split()\<close> splits: the code points for which
  \<^verbatim>\<open>str.isspace\<close> holds, that is the ASCII ones (tab to carriage return, the four
  separators \<^verbatim>\<open>\x1c\<close> to \<^verbatim>\<open>\x1f\<close>, the space) and NEL, the no-break space, the
  Ogham space mark, the spaces U+2000 to U+200A, the line and paragraph separators, the
  narrow no-break space, the medium mathematical space and the ideographic space.
\<close>

definition is_space :: "int \<Rightarrow> bool" where
  "is_space c =
     ((0x09 \<le> c \<and> c \<le> 0x0D) \<or> (0x1C \<le> c \<and> c \<le> 0x20) \<or> c = 0x85 \<or> c = 0xA0
      \<or> c = 0x1680 \<or> (0x2000 \<le> c \<and> c \<le> 0x200A) \<or> c = 0x2028 \<or> c = 0x2029
      \<or> c = 0x202F \<or> c = 0x205F \<or> c = 0x3000)"

text \<open>\<^verbatim>\<open>s.split()\<close>: the maximal runs of non-whitespace characters, in order.\<close>

fun split_acc :: "pystr \<Rightarrow> pystr \<Rightarrow> pystr list" where
  "split_acc cur [] = (if cur = [] then [] else [cur])"
| "split_acc cur (c # cs) =
     (if is_space c then (if cur = [] then split_acc [] cs else cur # split_acc [] cs)
      else split_acc (cur @ [c]) cs)"

definition py_split :: "pystr \<Rightarrow> pystr list" where
  "py_split s = split_acc [] s"

text \<open>\<^verbatim>\<open>sep.join(xs)\<close>.\<close>

fun join :: "pystr \<Rightarrow> pystr list \<Rightarrow> pystr" where
  "join sep [] = []"
| "join sep [x] = x"
| "join sep (x # y # ys) = x @ sep @ join sep (y # ys)"

text \<open>
  Reading a file opened in text mode translates \<^verbatim>\<open>\r\n\<close> and a lone \<^verbatim>\<open>\r\<close> to
  \<^verbatim>\<open>\n\<close> (universal newlines); iterating over it yields the lines, each with its
  terminator, the last one possibly without.
\<close>

fun universal_newlines :: "pystr \<Rightarrow> pystr" where
  "universal_newlines [] = []"
| "universal_newlines [c] = [if c = CR then LF else c]"
| "universal_newlines (c # d # cs) =
     (if c = CR then (if d = LF then LF # universal_newlines cs
                      else LF # universal_newlines (d # cs))
      else c # universal_newlines (d # cs))"

fun lines_acc :: "pystr \<Rightarrow> pystr \<Rightarrow> pystr list" where
  "lines_acc cur [] = (if cur = [] then [] else [cur])"
| "lines_acc cur (c # cs) =
     (if c = LF then (cur @ [c]) # lines_acc [] cs else lines_acc (cur @ [c]) cs)"

definition file_lines :: "pystr \<Rightarrow> pystr list" where
  "file_lines content = lines_acc [] (universal_newlines content)"

text \<open>\<^verbatim>\<open>[line.split() for line in f]\<close>, the way every reader of the session parses a file.\<close>

definition read_rows :: "pystr \<Rightarrow> pystr list list" where
  "read_rows content = map py_split (file_lines content)"

section \<open>Exceptions\<close>

datatype exn =
  OSError nat
  | ValueError
  | IndexError
  | Exception pystr "pystr list"
  | StageError pystr

definition EEXIST :: nat where
  "EEXIST = 17"

section \<open>Composition enumeration\<close>

text \<open>
  \<^verbatim>\<open>itertools.product(pool, repeat=r)\<close>, after the equivalent code of the Python
  documentation: \<^verbatim>\<open>result = [[]]\<close>, then \<^verbatim>\<open>r\<close> times
  \<^verbatim>\<open>result = [x + [y] for x in result for y in pool]\<close>. A negative \<^verbatim>\<open>repeat\<close>
  raises \<^verbatim>\<open>ValueError\<close>.
\<close>

fun product_repeat :: "'a list \<Rightarrow> nat \<Rightarrow> 'a list list" where
  "product_repeat pool 0 = [[]]"
| "product_repeat pool (Suc n) =
     concat (map (\<lambda>x. map (\<lambda>y. x @ [y]) pool) (product_repeat pool n))"

definition itertools_product :: "'a list \<Rightarrow> int \<Rightarrow> exn + 'a list list" where
  "itertools_product pool r =
     (if r < 0 then Inl ValueError else Inr (product_repeat pool (nat r)))"

text \<open>
  The order of the enumeration is the lexicographic one over the positions of the pool:
  \<open>index_of pool x\<close> is the position of the first \<open>x\<close> in the pool.
\<close>

fun index_of :: "'a list \<Rightarrow> 'a \<Rightarrow> nat" where
  "index_of [] x = 0"
| "index_of (y # ys) x = (if x = y then 0 else Suc (index_of ys x))"

fun lex_less :: "('a \<Rightarrow> 'a \<Rightarrow> bool) \<Rightarrow> 'a list \<Rightarrow> 'a list \<Rightarrow> bool" where
  "lex_less lt [] [] = False"
| "lex_less lt [] (y # ys) = True"
| "lex_less lt (x # xs) [] = False"
| "lex_less lt (x # xs) (y # ys) = (lt x y \<or> (x = y \<and> lex_less lt xs ys))"

definition pool_less :: "'a list \<Rightarrow> 'a \<Rightarrow> 'a \<Rightarrow> bool" where
  "pool_less pool x y = (index_of pool x < index_of pool y)"

text \<open>
  The sampling loop of \<^verbatim>\<open>get_polymer_compositions\<close>. One pass over the enumeration
  yields the item whose index equals the drawn \<^verbatim>\<open>choice\<close>; \<open>walk\<close> returns what the pass
  yields. The values that \<^verbatim>\<open>random.randint(0, len_product)\<close> returns, one per iteration
  of the \<^verbatim>\<open>while\<close> loop, are a parameter (\<open>draws\<close>); the loop has not returned
  (\<open>None\<close>) when the draws are used up while \<^verbatim>\<open>counter < random_select\<close> still holds.
\<close>

fun walk :: "'a list \<Rightarrow> nat \<Rightarrow> nat \<Rightarrow> 'a list" where
  "walk [] index choice = []"
| "walk (item # rest) index choice =
     (if index = choice then item # walk rest (Suc index) choice
      else walk rest (Suc index) choice)"

fun sample_loop :: "'a list \<Rightarrow> int \<Rightarrow> int \<Rightarrow> nat list \<Rightarrow> 'a list option" where
  "sample_loop product counter random_select [] =
     (if counter < random_select then None else Some [])"
| "sample_loop product counter random_select (choice # draws) =
     (if counter < random_select then
        (let yielded = walk product 0 choice in
         map_option (\<lambda>later. yielded @ later)
           (sample_loop product (counter + int (length yielded)) random_select draws))
      else Some [])"

section \<open>Session, environment and world\<close>

record session =
  session_name :: pystr
  length_repeat :: int
  n_repeat :: int
  n_confs :: int
  solvent_info :: "pystr list"

datatype stage =
  GeneratePolymer | ConformerSearch | XtbOpt | XtbCalcPotentials | StdaCalcExcitation

text \<open>
  The world is what the session reads and writes outside its own fields: the work-log
  \<^verbatim>\<open>temp\<close>, the directories made so far, the report \<^verbatim>\<open>screening-output\<close>, the error
  log, the working directories in which \<^verbatim>\<open>remove_junk\<close> has run, and a trace with one entry
  per pipeline stage started (the polymer's name and the stage), standing for the artifacts
  that stage leaves.
\<close>

record world =
  temp :: pystr
  dirs :: "pystr list"
  screening_output :: pystr
  error_entries :: "(pystr list \<times> exn) list"
  junk_removed :: "pystr list"
  stage_trace :: "(pystr \<times> stage) list"

record 'm polymer =
  pname :: pystr
  mol :: 'm

text \<open>
  The environment holds what the repository's file does not define: the constants of
  \<^verbatim>\<open>utilities\<close> (\<open>valid_solvents\<close>, \<open>output_header\<close>), the operating system's refusal
  to make a directory (\<open>mkdir_fault\<close>, an errno), and the outcome of each call into rdkit,
  stk and the external engines. Each of them returns or raises.
\<close>

record ('m, 'c) env =
  valid_solvents :: "pystr list"
  output_header :: pystr
  mkdir_fault :: "pystr \<Rightarrow> nat option"
  stk_generate :: "int \<Rightarrow> pystr list \<Rightarrow> (pystr \<times> pystr) list \<Rightarrow> pystr \<Rightarrow> exn + 'm \<times> 'm"
  rdkit_conformers :: "int \<Rightarrow> 'm polymer \<Rightarrow> exn + 'c"
  babel :: "pystr \<Rightarrow> pystr list \<Rightarrow> exn + int"
  run_calc :: "pystr \<Rightarrow> pystr list \<Rightarrow> exn + pystr"
  float_ev :: "pystr \<Rightarrow> exn + pystr"
  shutil_copy :: "pystr \<Rightarrow> pystr \<Rightarrow> pystr \<Rightarrow> exn + unit"
  property_fields ::
    "'m polymer \<Rightarrow> pystr \<Rightarrow> pystr \<Rightarrow> pystr \<Rightarrow> pystr \<Rightarrow> pystr option \<Rightarrow> pystr list"

text \<open>Statements run in the world and return a value or raise.\<close>

type_synonym 'a io = "world \<Rightarrow> (exn + 'a) \<times> world"

definition return :: "'a \<Rightarrow> 'a io" where
  "return a w = (Inr a, w)"

definition raise :: "exn \<Rightarrow> 'a io" where
  "raise e w = (Inl e, w)"

definition bind :: "'a io \<Rightarrow> ('a \<Rightarrow> 'b io) \<Rightarrow> 'b io" where
  "bind m f w = (case m w of (Inl e, w') \<Rightarrow> (Inl e, w') | (Inr a, w') \<Rightarrow> f a w')"

definition try_except :: "'a io \<Rightarrow> (exn \<Rightarrow> 'a io) \<Rightarrow> 'a io" where
  "try_except m handler w = (case m w of (Inl e, w') \<Rightarrow> handler e w' | (Inr a, w') \<Rightarrow> (Inr a, w'))"

definition lift :: "exn + 'a \<Rightarrow> 'a io" where
  "lift r w = (r, w)"

subsection \<open>Directories\<close>

text \<open>
  \<^verbatim>\<open>os.makedirs(path)\<close> raises \<^verbatim>\<open>OSError\<close> with errno \<^verbatim>\<open>EEXIST\<close> when the path
  exists, and with the errno of \<open>mkdir_fault\<close> when the system refuses; the source's
  handler swallows \<^verbatim>\<open>EEXIST\<close> and raises the rest again.
\<close>

definition os_makedirs :: "('m, 'c) env \<Rightarrow> pystr \<Rightarrow> unit io" where
  "os_makedirs E path w =
     (if path \<in> set (dirs w) then (Inl (OSError EEXIST), w)
      else case mkdir_fault E path of
             Some n \<Rightarrow> (Inl (OSError n), w)
           | None \<Rightarrow> (Inr (), w\<lparr>dirs := dirs w @ [path]\<rparr>))"

definition makedirs_unless_exists :: "('m, 'c) env \<Rightarrow> pystr \<Rightarrow> unit io" where
  "makedirs_unless_exists E path =
     try_except (os_makedirs E path)
       (\<lambda>e. case e of OSError n \<Rightarrow> (if n \<noteq> EEXIST then raise e else return ())
                   | _ \<Rightarrow> raise e)"

subsection \<open>Session construction\<close>

definition truncate_temp :: "unit io" where
  "truncate_temp w = (Inr (), w\<lparr>temp := []\<rparr>)"

definition Session_init ::
  "('m, 'c) env \<Rightarrow> pystr \<Rightarrow> int \<Rightarrow> int \<Rightarrow> int \<Rightarrow> pystr option \<Rightarrow> session io" where
  "Session_init E name lr nr nc solvent =
     bind (makedirs_unless_exists E name) (\<lambda>_.
     bind (case solvent of
             None \<Rightarrow> return []
           | Some sv \<Rightarrow>
               (if sv \<notin> set (valid_solvents E)
                then raise (Exception (str ''Invalid solvent choice. Valid solvents:'') (valid_solvents E))
                else return [str ''-gbsa'', sv])) (\<lambda>info.
     bind truncate_temp (\<lambda>_.
     return \<lparr>session_name = name, length_repeat = lr, n_repeat = nr, n_confs = nc,
             solvent_info = info\<rparr>)))"

section \<open>The pipeline stages\<close>

text \<open>
  Python's slices and \<^verbatim>\<open>str.find\<close>, as the stages use them on an engine's transcript:
  a negative bound counts from the end and every bound is clipped to the text;
  \<^verbatim>\<open>find\<close> returns the first position of the marker, or \<^verbatim>\<open>-1\<close>; \<^verbatim>\<open>xs[i]\<close> raises
  \<^verbatim>\<open>IndexError\<close> out of range.
\<close>

definition norm_index :: "nat \<Rightarrow> int \<Rightarrow> nat" where
  "norm_index len i = (if i < 0 then nat (max 0 (int len + i)) else min (nat i) len)"

definition py_slice :: "'a list \<Rightarrow> int \<Rightarrow> int \<Rightarrow> 'a list" where
  "py_slice xs i j =
     (let a = norm_index (length xs) i; b = norm_index (length xs) j
      in take (b - a) (drop a xs))"

definition py_slice_from :: "'a list \<Rightarrow> int \<Rightarrow> 'a list" where
  "py_slice_from xs i = drop (norm_index (length xs) i) xs"

fun find_from :: "pystr \<Rightarrow> pystr \<Rightarrow> nat \<Rightarrow> int" where
  "find_from [] sub i = (if sub = [] then int i else - 1)"
| "find_from (c # cs) sub i =
     (if take (length sub) (c # cs) = sub then int i else find_from cs sub (Suc i))"

definition py_find :: "pystr \<Rightarrow> pystr \<Rightarrow> int" where
  "py_find s sub = find_from s sub 0"

definition py_item :: "'a list \<Rightarrow> nat \<Rightarrow> exn + 'a" where
  "py_item xs i = (if i < length xs then Inr (xs ! i) else Inl IndexError)"

definition and_then :: "exn + 'a \<Rightarrow> ('a \<Rightarrow> exn + 'b) \<Rightarrow> exn + 'b" where
  "and_then r f = (case r of Inl e \<Rightarrow> Inl e | Inr a \<Rightarrow> f a)"

text \<open>The token at a fixed offset after a marker phrase: \<^verbatim>\<open>output[output.find(m):].split()[k]\<close>.\<close>

definition token_after :: "pystr \<Rightarrow> pystr \<Rightarrow> nat \<Rightarrow> exn + pystr" where
  "token_after output marker k = py_item (py_split (py_slice_from output (py_find output marker))) k"

text \<open>
  What each stage returns or raises. Stages 1 and 2 are calls into stk and rdkit; stages 3
  to 5 run the engines through \<^verbatim>\<open>run_calc\<close> and read the transcript.
\<close>

definition generate_polymer_result ::
  "('m, 'c) env \<Rightarrow> session \<Rightarrow> pystr list \<Rightarrow> (pystr \<times> pystr) list \<Rightarrow> pystr
     \<Rightarrow> exn + 'm polymer \<times> 'm polymer" where
  "generate_polymer_result E s permutation monomers_dict name =
     and_then (stk_generate E (n_repeat s) permutation monomers_dict name) (\<lambda>(pm, rm).
       Inr (\<lparr>pname = name, mol = pm\<rparr>, \<lparr>pname = name, mol = rm\<rparr>))"

definition conformer_search_result :: "('m, 'c) env \<Rightarrow> session \<Rightarrow> 'm polymer \<Rightarrow> exn + 'c" where
  "conformer_search_result E s polymer = rdkit_conformers E (n_confs s) polymer"

definition xtb_opt_result ::
  "('m, 'c) env \<Rightarrow> session \<Rightarrow> 'm polymer \<Rightarrow> exn + pystr \<times> pystr option" where
  "xtb_opt_result E s polymer =
     (let name = pname polymer; molfile = name @ str ''.mol''; xyzfile = name @ str ''.xyz'' in
      and_then (babel E name [str ''babel'', molfile, xyzfile]) (\<lambda>_.
      and_then (run_calc E name ([str ''xtb'', xyzfile, str ''-opt''] @ solvent_info s)) (\<lambda>output.
      and_then
        (if length (solvent_info s) > 0 then
           and_then (py_item (py_split (py_slice output (- 900) (- 100))) 27) (\<lambda>E_xtb.
           and_then (py_item (py_split (py_slice output (- 900) (- 100))) 18) (\<lambda>tok.
           and_then (float_ev E tok) (\<lambda>E_solv. Inr (E_xtb, Some E_solv))))
         else
           and_then (py_item (py_split (py_slice output (- 900) (- 100))) 29) (\<lambda>E_xtb.
           Inr (E_xtb, None))) (\<lambda>energies.
      and_then (shutil_copy E name (str ''xtbopt.xyz'') (name @ str ''-opt.xyz'')) (\<lambda>_.
      Inr energies)))))"

definition xtb_calc_potentials_result ::
  "('m, 'c) env \<Rightarrow> session \<Rightarrow> 'm polymer \<Rightarrow> exn + pystr \<times> pystr" where
  "xtb_calc_potentials_result E s polymer =
     (let name = pname polymer; xyzfile = name @ str ''-opt.xyz'' in
      and_then (run_calc E name ([str ''xtb'', xyzfile, str ''-vip''] @ solvent_info s)) (\<lambda>output.
      and_then (token_after output (str ''delta SCC IP'') 4) (\<lambda>vip.
      and_then (run_calc E name ([str ''xtb'', xyzfile, str ''-vea''] @ solvent_info s)) (\<lambda>output2.
      and_then (token_after output2 (str ''delta SCC EA'') 4) (\<lambda>vea.
      Inr (vip, vea))))))"

definition stda_calc_excitation_result ::
  "('m, 'c) env \<Rightarrow> session \<Rightarrow> 'm polymer \<Rightarrow> exn + pystr \<times> pystr" where
  "stda_calc_excitation_result E s polymer =
     (let name = pname polymer; xyzfile = name @ str ''-opt.xyz'' in
      and_then (run_calc E name ([str ''xtb'', xyzfile] @ solvent_info s)) (\<lambda>_.
      and_then (run_calc E name [str ''stda'', str ''-xtb'', str ''-e'', str ''8'']) (\<lambda>output.
      and_then (token_after output (str ''excitation energies'') 13) (\<lambda>gap.
      and_then (token_after output (str ''excitation energies'') 15) (\<lambda>f.
      Inr (gap, f))))))"

text \<open>A stage that starts leaves its entry in the trace, then returns or raises.\<close>

definition started :: "pystr \<Rightarrow> stage \<Rightarrow> unit io" where
  "started name st w = (Inr (), w\<lparr>stage_trace := stage_trace w @ [(name, st)]\<rparr>)"

definition generate_polymer ::
  "('m, 'c) env \<Rightarrow> session \<Rightarrow> pystr list \<Rightarrow> (pystr \<times> pystr) list \<Rightarrow> pystr
     \<Rightarrow> ('m polymer \<times> 'm polymer) io" where
  "generate_polymer E s permutation monomers_dict name =
     bind (started name GeneratePolymer) (\<lambda>_.
       lift (generate_polymer_result E s permutation monomers_dict name))"

definition conformer_search :: "('m, 'c) env \<Rightarrow> session \<Rightarrow> 'm polymer \<Rightarrow> 'c io" where
  "conformer_search E s polymer =
     bind (started (pname polymer) ConformerSearch) (\<lambda>_. lift (conformer_search_result E s polymer))"

definition xtb_opt ::
  "('m, 'c) env \<Rightarrow> session \<Rightarrow> 'm polymer \<Rightarrow> (pystr \<times> pystr option) io" where
  "xtb_opt E s polymer =
     bind (started (pname polymer) XtbOpt) (\<lambda>_. lift (xtb_opt_result E s polymer))"

definition xtb_calc_potentials ::
  "('m, 'c) env \<Rightarrow> session \<Rightarrow> 'm polymer \<Rightarrow> (pystr \<times> pystr) io" where
  "xtb_calc_potentials E s polymer =
     bind (started (pname polymer) XtbCalcPotentials) (\<lambda>_.
       lift (xtb_calc_potentials_result E s polymer))"

definition stda_calc_excitation ::
  "('m, 'c) env \<Rightarrow> session \<Rightarrow> 'm polymer \<Rightarrow> (pystr \<times> pystr) io" where
  "stda_calc_excitation E s polymer =
     bind (started (pname polymer) StdaCalcExcitation) (\<lambda>_.
       lift (stda_calc_excitation_result E s polymer))"

subsection \<open>The helpers of \<^verbatim>\<open>utilities\<close>\<close>

text \<open>
  Modelled from the spec: \<^verbatim>\<open>property_log\<close> is defined in \<^verbatim>\<open>utilities\<close>, which is not
  part of the sources. By the spec a successful evaluation appends one Property Record, a
  row of tab-separated fields, to the screening-output file.
\<close>

definition property_log ::
  "('m, 'c) env \<Rightarrow> 'm polymer \<Rightarrow> pystr \<Rightarrow> pystr \<Rightarrow> pystr \<Rightarrow> pystr \<Rightarrow> pystr option
     \<Rightarrow> unit io" where
  "property_log E repeat vip vea gap f E_solv w =
     (Inr (), w\<lparr>screening_output :=
        screening_output w @ join [TAB] (property_fields E repeat vip vea gap f E_solv) @ [LF]\<rparr>)"

text \<open>
  Modelled from the spec: \<^verbatim>\<open>error_log\<close> is defined in \<^verbatim>\<open>utilities\<close>, which is not
  part of the sources. By the spec it logs the composition and the causing error to the
  error channel.
\<close>

definition error_log :: "pystr list \<Rightarrow> (pystr \<times> pystr) list \<Rightarrow> exn \<Rightarrow> unit io" where
  "error_log permutation monomers_dict e w =
     (Inr (), w\<lparr>error_entries := error_entries w @ [(permutation, e)]\<rparr>)"

text \<open>
  Modelled from the spec: \<^verbatim>\<open>remove_junk\<close> is defined in \<^verbatim>\<open>utilities\<close>, which is not
  part of the sources. By the spec it removes the transient artifacts of the working
  directory it runs in; the world records that directory.
\<close>

definition remove_junk :: "pystr \<Rightarrow> unit io" where
  "remove_junk cwd w = (Inr (), w\<lparr>junk_removed := junk_removed w @ [cwd]\<rparr>)"

section \<open>Deduplication and dispatch\<close>

text \<open>
  \<^verbatim>\<open>screening_protocol\<close> reads the work-log (lines 175 and 176 of the source), then
  decides with what it read (lines 178 to 202). The two steps are separate definitions:
  a call that runs alone is their composition, and concurrent workers interleave them.
\<close>

definition read_screened :: "world \<Rightarrow> pystr list list" where
  "read_screened w = read_rows (temp w)"

definition run_pipeline ::
  "('m, 'c) env \<Rightarrow> session \<Rightarrow> pystr list \<Rightarrow> (pystr \<times> pystr) list \<Rightarrow> pystr \<Rightarrow> pystr
     \<Rightarrow> unit io" where
  "run_pipeline E s permutation monomers_dict name cwd =
     try_except
       (bind (generate_polymer E s permutation monomers_dict name) (\<lambda>(polymer, repeat).
        bind (conformer_search E s polymer) (\<lambda>_.
        bind (xtb_opt E s polymer) (\<lambda>(E_xtb, E_solv).
        bind (xtb_calc_potentials E s polymer) (\<lambda>(vip, vea).
        bind (stda_calc_excitation E s polymer) (\<lambda>(gap, f).
        bind (property_log E repeat vip vea gap f E_solv) (\<lambda>_.
        remove_junk cwd)))))))
       (\<lambda>e. bind (error_log permutation monomers_dict e) (\<lambda>_. remove_junk cwd))"

definition dispatch_unless_screened ::
  "('m, 'c) env \<Rightarrow> session \<Rightarrow> pystr list \<Rightarrow> (pystr \<times> pystr) list \<Rightarrow> pystr list list
     \<Rightarrow> unit io" where
  "dispatch_unless_screened E s permutation monomers_dict screened w =
     (if permutation \<notin> set screened \<and> rev permutation \<notin> set screened then
        (let w1 = w\<lparr>temp := temp w @ join [SP] permutation @ [LF]\<rparr>;
             name = join (str ''-'') permutation;
             cwd = session_name s @ str ''/'' @ name
         in bind (makedirs_unless_exists E cwd) (\<lambda>_.
              run_pipeline E s permutation monomers_dict name cwd) w1)
      else (Inr (), w))"

definition screening_protocol ::
  "('m, 'c) env \<Rightarrow> session \<Rightarrow> pystr list \<Rightarrow> (pystr \<times> pystr) list \<Rightarrow> unit io" where
  "screening_protocol E s permutation monomers_dict w =
     dispatch_unless_screened E s permutation monomers_dict (read_screened w) w"

section \<open>Screening\<close>

definition get_polymer_compositions ::
  "session \<Rightarrow> (pystr \<times> pystr) list \<Rightarrow> int \<Rightarrow> nat list \<Rightarrow> (exn + pystr list list) option" where
  "get_polymer_compositions s monomers_dict random_select draws =
     (let monomers = map fst monomers_dict in
      if random_select = 0 then Some (itertools_product monomers (length_repeat s))
      else (case itertools_product monomers (length_repeat s) of
              Inl e \<Rightarrow> Some (Inl e)
            | Inr product \<Rightarrow> map_option Inr (sample_loop product 0 random_select draws)))"

text \<open>
  The catalog is a Python dictionary: keys in insertion order, a key assigned again keeps
  its place. Unpacking a line that does not hold exactly two fields raises
  \<^verbatim>\<open>ValueError\<close>.
\<close>

fun monomers_to_dict ::
  "pystr list list \<Rightarrow> (pystr \<times> pystr) list \<Rightarrow> exn + (pystr \<times> pystr) list" where
  "monomers_to_dict [] d = Inr d"
| "monomers_to_dict (line # rest) d =
     (case line of
        [i, smiles] \<Rightarrow> monomers_to_dict rest (AList.update i smiles d)
      | _ \<Rightarrow> Inl ValueError)"

text \<open>With \<^verbatim>\<open>nprocs = 1\<close> the dispatches run one after the other, in the order enumerated.\<close>

fun dispatch_all ::
  "('m, 'c) env \<Rightarrow> session \<Rightarrow> (pystr \<times> pystr) list \<Rightarrow> pystr list list \<Rightarrow> unit io" where
  "dispatch_all E s monomers_dict [] = return ()"
| "dispatch_all E s monomers_dict (permutation # rest) =
     bind (screening_protocol E s permutation monomers_dict) (\<lambda>_.
       dispatch_all E s monomers_dict rest)"

definition screen ::
  "('m, 'c) env \<Rightarrow> session \<Rightarrow> pystr \<Rightarrow> int \<Rightarrow> nat list \<Rightarrow> world
     \<Rightarrow> ((exn + unit) \<times> world) option" where
  "screen E s monomers_text random_select draws w =
     (case monomers_to_dict (read_rows monomers_text) [] of
        Inl e \<Rightarrow> Some (Inl e, w)
      | Inr monomers_dict \<Rightarrow>
          (let w1 = w\<lparr>screening_output := output_header E\<rparr> in
           case get_polymer_compositions s monomers_dict random_select draws of
             None \<Rightarrow> None
           | Some (Inl e) \<Rightarrow> Some (Inl e, w1)
           | Some (Inr compositions) \<Rightarrow> Some (dispatch_all E s monomers_dict compositions w1)))"

text \<open>
  With \<^verbatim>\<open>nprocs > 1\<close> the calls run in worker processes. A call is waiting to read the
  work-log, or has read it and not yet decided, or is done; a schedule names the call that
  takes its next step. An exception of a call ends that call; what the parent process does
  with it is not followed here.
\<close>

datatype call = Waiting "pystr list" | Checked "pystr list" "pystr list list" | Done

definition call_step ::
  "('m, 'c) env \<Rightarrow> session \<Rightarrow> (pystr \<times> pystr) list \<Rightarrow> nat \<Rightarrow> call list \<times> world
     \<Rightarrow> call list \<times> world" where
  "call_step E s monomers_dict i cw =
     (case cw of (calls, w) \<Rightarrow>
        if i < length calls then
          (case calls ! i of
             Waiting permutation \<Rightarrow> (calls[i := Checked permutation (read_screened w)], w)
           | Checked permutation screened \<Rightarrow>
               (calls[i := Done],
                snd (dispatch_unless_screened E s permutation monomers_dict screened w))
           | Done \<Rightarrow> (calls, w))
        else (calls, w))"

fun run_schedule ::
  "('m, 'c) env \<Rightarrow> session \<Rightarrow> (pystr \<times> pystr) list \<Rightarrow> nat list \<Rightarrow> call list \<times> world
     \<Rightarrow> call list \<times> world" where
  "run_schedule E s monomers_dict [] cw = cw"
| "run_schedule E s monomers_dict (i # schedule) cw =
     run_schedule E s monomers_dict schedule (call_step E s monomers_dict i cw)"

section \<open>The sort pass\<close>

text \<open>
  \<^verbatim>\<open>'{}\t{}\t{}\t{}\t{}\t{}\t{}\t{}\t{}\n'.format(*row)\<close> raises \<^verbatim>\<open>IndexError\<close> on fewer than
  nine fields and ignores the fields after the ninth.
\<close>

definition format9 :: "pystr list \<Rightarrow> exn + pystr" where
  "format9 row = (if length row < 9 then Inl IndexError else Inr (join [TAB] (take 9 row) @ [LF]))"

text \<open>
  The file is opened for writing, so emptied, before the first row is formatted; what was
  written stays when a later row raises.
\<close>

fun write_rows :: "pystr list list \<Rightarrow> pystr \<Rightarrow> (exn + unit) \<times> pystr" where
  "write_rows [] written = (Inr (), written)"
| "write_rows (row # rest) written =
     (case format9 row of
        Inl e \<Rightarrow> (Inl e, written)
      | Inr line \<Rightarrow> write_rows rest (written @ line))"

text \<open>
  \<^verbatim>\<open>content.sort(key = operator.itemgetter(0, 1))\<close>: the keys are computed first, and a row
  with fewer than two fields raises \<^verbatim>\<open>IndexError\<close>; the sort is stable, and the keys,
  pairs of strings, are compared lexicographically.
\<close>

definition itemgetter01 :: "pystr list \<Rightarrow> pystr \<times> pystr" where
  "itemgetter01 row = (row ! 0, row ! 1)"

definition output_sort :: "session \<Rightarrow> unit io" where
  "output_sort s w =
     (case read_rows (screening_output w) of
        [] \<Rightarrow> (Inl IndexError, w)
      | header # content \<Rightarrow>
          (if list_ex (\<lambda>row. length row < 2) content then (Inl IndexError, w)
           else (case write_rows (header # sort_key itemgetter01 content) [] of
                   (r, written) \<Rightarrow> (r, w\<lparr>screening_output := written\<rparr>))))"

section \<open>Vocabulary of the properties\<close>

text \<open>
  A token is what \<^verbatim>\<open>str.split()\<close> returns: a non-empty string without whitespace. The
  monomer identifiers are tokens, since \<^verbatim>\<open>screen\<close> reads them with \<^verbatim>\<open>line.split()\<close>.
\<close>

definition token :: "pystr \<Rightarrow> bool" where
  "token t = (t \<noteq> [] \<and> list_all (\<lambda>c. \<not> is_space c) t)"

text \<open>
  The text of a file that holds the rows \<open>rows\<close>, one line each, the fields of a row
  separated by the character \<open>sp\<close>; the work-log that holds the compositions \<open>ps\<close> is
  such a text with the space as separator, as \<^verbatim>\<open>screening_protocol\<close> writes it.
  A world is canonical when its work-log is the text of what a reader parses from it; the
  empty work-log is.
\<close>

definition rows_text :: "int \<Rightarrow> pystr list list \<Rightarrow> pystr" where
  "rows_text sp rows = concat (map (\<lambda>row. join [sp] row @ [LF]) rows)"

definition work_log_text :: "pystr list list \<Rightarrow> pystr" where
  "work_log_text ps = rows_text SP ps"

definition canonical :: "world \<Rightarrow> bool" where
  "canonical w = (temp w = work_log_text (read_screened w))"

text \<open>
  No composition stands twice in the work-log, and none stands beside its reverse unless
  it is its own reverse.
\<close>

definition symmetric_free :: "pystr list list \<Rightarrow> bool" where
  "symmetric_free screened =
     (distinct screened \<and> list_all (\<lambda>c. rev c \<in> set screened \<longrightarrow> rev c = c) screened)"

text \<open>
  The stages in pipeline order, the stages started when stage \<open>st\<close> is the first to raise,
  and the outcome of a pipeline: the first stage that raises with its exception, or the
  fields of the Property Record.
\<close>

definition pipeline_order :: "stage list" where
  "pipeline_order =
     [GeneratePolymer, ConformerSearch, XtbOpt, XtbCalcPotentials, StdaCalcExcitation]"

definition stages_upto :: "stage \<Rightarrow> stage list" where
  "stages_upto st = take (Suc (index_of pipeline_order st)) pipeline_order"

definition pipeline_outcome ::
  "('m, 'c) env \<Rightarrow> session \<Rightarrow> pystr list \<Rightarrow> (pystr \<times> pystr) list \<Rightarrow> pystr
     \<Rightarrow> (stage \<times> exn) + pystr list" where
  "pipeline_outcome E s permutation monomers_dict name =
     (case generate_polymer_result E s permutation monomers_dict name of
        Inl e \<Rightarrow> Inl (GeneratePolymer, e)
      | Inr (polymer, repeat) \<Rightarrow>
     (case conformer_search_result E s polymer of
        Inl e \<Rightarrow> Inl (ConformerSearch, e)
      | Inr _ \<Rightarrow>
     (case xtb_opt_result E s polymer of
        Inl e \<Rightarrow> Inl (XtbOpt, e)
      | Inr (E_xtb, E_solv) \<Rightarrow>
     (case xtb_calc_potentials_result E s polymer of
        Inl e \<Rightarrow> Inl (XtbCalcPotentials, e)
      | Inr (vip, vea) \<Rightarrow>
     (case stda_calc_excitation_result E s polymer of
        Inl e \<Rightarrow> Inl (StdaCalcExcitation, e)
      | Inr (gap, f) \<Rightarrow> Inr (property_fields E repeat vip vea gap f E_solv))))))"

text \<open>The world after the \<^verbatim>\<open>try\<close> statement of \<^verbatim>\<open>screening_protocol\<close> has run in \<open>w\<close>.\<close>

definition after_pipeline ::
  "('m, 'c) env \<Rightarrow> session \<Rightarrow> pystr list \<Rightarrow> (pystr \<times> pystr) list \<Rightarrow> pystr \<Rightarrow> pystr
     \<Rightarrow> world \<Rightarrow> world" where
  "after_pipeline E s permutation monomers_dict name cwd w =
     (case pipeline_outcome E s permutation monomers_dict name of
        Inl (st, e) \<Rightarrow>
          w\<lparr>stage_trace := stage_trace w @ map (Pair name) (stages_upto st),
            error_entries := error_entries w @ [(permutation, e)],
            junk_removed := junk_removed w @ [cwd]\<rparr>
      | Inr row \<Rightarrow>
          w\<lparr>stage_trace := stage_trace w @ map (Pair name) pipeline_order,
            screening_output := screening_output w @ join [TAB] row @ [LF],
            junk_removed := junk_removed w @ [cwd]\<rparr>)"




section \<open>A concrete environment\<close>

text \<open>
  A world in which nothing has happened yet, transcripts of the shape the stages parse, and
  an environment in which every external call returns; the transcript of the
  \<^verbatim>\<open>-vip\<close> run is a parameter, so that a pipeline can be made to fail at stage 4.
\<close>

definition fresh_world :: world where
  "fresh_world = \<lparr>temp = [], dirs = [], screening_output = [], error_entries = [],
     junk_removed = [], stage_trace = []\<rparr>"

definition transcript_opt :: pystr where
  "transcript_opt = concat (replicate 40 (str ''-1.5 '')) @ str (replicate 100 CHR ''='')"

definition transcript_vip :: pystr where
  "transcript_vip = str ''delta SCC IP (eV): 7.0440''"

definition transcript_vea :: pystr where
  "transcript_vea = str ''delta SCC EA (eV): 2.1468''"

definition transcript_stda :: pystr where
  "transcript_stda =
     (str ''excitation energies, transition moments and TDA amplitudes state eV nm fL Rv(corr) 1 2.741 452.3 1.2345 0.9'')"

definition demo_run_calc :: "pystr \<Rightarrow> pystr \<Rightarrow> pystr list \<Rightarrow> exn + pystr" where
  "demo_run_calc vip_text name argv =
     (if str ''-opt'' \<in> set argv then Inr transcript_opt
      else if str ''-vip'' \<in> set argv then Inr vip_text
      else if str ''-vea'' \<in> set argv then Inr transcript_vea
      else if str ''stda'' \<in> set argv then Inr transcript_stda
      else Inr [])"

definition demo_env :: "pystr \<Rightarrow> (unit, nat) env" where
  "demo_env vip_text =
     \<lparr>valid_solvents = [str ''water'', str ''toluene''],
      output_header =
        join [TAB] [str ''ID1'', str ''ID2'', str ''SMILES'', str ''IP'', str ''EA'', str ''gap'', str ''f'', str ''Esolv'', str ''note'']
          @ [LF],
      mkdir_fault = (\<lambda>_. None),
      stk_generate = (\<lambda>_ _ _ _. Inr ((), ())),
      rdkit_conformers = (\<lambda>_ _. Inr 0),
      babel = (\<lambda>_ _. Inr 0),
      run_calc = demo_run_calc vip_text,
      float_ev = (\<lambda>_. Inr (str ''-0.123'')),
      shutil_copy = (\<lambda>_ _ _. Inr ()),
      property_fields = (\<lambda>repeat vip vea gap f E_solv.
         [pname repeat, str ''-'', vip, vea, gap, f, str ''0'', str ''0'', str ''0''])\<rparr>"

definition demo_session :: session where
  "demo_session = \<lparr>session_name = str ''run'', length_repeat = 2, n_repeat = 1, n_confs = 1,
     solvent_info = []\<rparr>"


text \<open>A session whose repeat unit is a single monomer.\<close>

definition demo_session1 :: session where
  "demo_session1 = demo_session\<lparr>length_repeat := 1\<rparr>"

section \<open>Literals\<close>

lemma str_eq_iff [simp]: "str a = str b \<longleftrightarrow> a = b"
  by (simp add: str_def inj_map_eq_map[OF inj_of_char])

lemma str_append [simp]: "str a @ str b = str (a @ b)"
  by (simp add: str_def)

lemma str_append_assoc [simp]: "str a @ str b @ c = str (a @ b) @ c"
  by (simp add: str_def)

lemma str_eq_Nil [simp]: "str a = [] \<longleftrightarrow> a = []" "[] = str a \<longleftrightarrow> a = []"
  by (auto simp: str_def)

section \<open>Properties of the enumeration\<close>

lemma length_product_repeat: "length (product_repeat pool n) = length pool ^ n"
proof (induction n)
  case 0
  show ?case by simp
next
  case (Suc n)
  have "length (concat (map (\<lambda>x. map (\<lambda>y. x @ [y]) pool) xs)) = length xs * length pool" for xs :: "'a list list"
    by (induction xs) simp_all
  with Suc show ?case by simp
qed

lemma set_product_repeat:
  "set (product_repeat pool n) = {p. length p = n \<and> set p \<subseteq> set pool}"
proof (induction n)
  case 0
  show ?case by auto
next
  case (Suc n)
  show ?case
  proof (rule set_eqI)
    fix p :: "'a list"
    show "p \<in> set (product_repeat pool (Suc n)) \<longleftrightarrow> p \<in> {p. length p = Suc n \<and> set p \<subseteq> set pool}"
    proof
      assume "p \<in> set (product_repeat pool (Suc n))"
      then obtain x y where "x \<in> set (product_repeat pool n)" "y \<in> set pool" "p = x @ [y]"
        by auto
      with Suc show "p \<in> {p. length p = Suc n \<and> set p \<subseteq> set pool}" by auto
    next
      assume a: "p \<in> {p. length p = Suc n \<and> set p \<subseteq> set pool}"
      then have "p \<noteq> []" by auto
      then obtain x y where p: "p = x @ [y]" by (metis rev_exhaust)
      with a have "length x = n" "set x \<subseteq> set pool" "y \<in> set pool" by auto
      with Suc have "x \<in> set (product_repeat pool n)" by simp
      with p \<open>y \<in> set pool\<close> show "p \<in> set (product_repeat pool (Suc n))" by auto
    qed
  qed
qed

lemma sorted_wrt_concat_map:
  assumes "\<And>x. x \<in> set xs \<Longrightarrow> sorted_wrt P (f x)"
    and "sorted_wrt Q xs"
    and "\<And>x x' a b. Q x x' \<Longrightarrow> a \<in> set (f x) \<Longrightarrow> b \<in> set (f x') \<Longrightarrow> P a b"
  shows "sorted_wrt P (concat (map f xs))"
  using assms(1,2)
proof (induction xs)
  case Nil
  show ?case by simp
next
  case (Cons x xs)
  then show ?case
    by (auto simp: sorted_wrt_append intro: assms(3))
qed

lemma lex_less_append_same: "lt y y' \<Longrightarrow> lex_less lt (x @ [y]) (x @ [y'])"
  by (induction x) simp_all

lemma lex_less_append:
  "length x = length x' \<Longrightarrow> lex_less lt x x' \<Longrightarrow> lex_less lt (x @ u) (x' @ v)"
  by (induction x x' rule: list_induct2) auto

lemma index_of_less_length: "x \<in> set pool \<Longrightarrow> index_of pool x < length pool"
  by (induction pool) auto

lemma sorted_wrt_pool_less: "distinct pool \<Longrightarrow> sorted_wrt (pool_less pool) pool"
proof (induction pool)
  case Nil
  show ?case by simp
next
  case (Cons y ys)
  then have "sorted_wrt (pool_less ys) ys" by simp
  then have "sorted_wrt (pool_less (y # ys)) ys"
    using Cons.prems by (elim sorted_wrt_mono_rel[rotated]) (auto simp: pool_less_def)
  moreover have "\<forall>z\<in>set ys. pool_less (y # ys) y z"
    using Cons.prems by (auto simp: pool_less_def)
  ultimately show ?case by simp
qed

lemma sorted_wrt_product_repeat:
  assumes "distinct pool"
  shows "sorted_wrt (lex_less (pool_less pool)) (product_repeat pool n)"
proof (induction n)
  case 0
  show ?case by simp
next
  case (Suc n)
  have inner: "sorted_wrt (lex_less (pool_less pool)) (map (\<lambda>y. x @ [y]) pool)" for x
    using sorted_wrt_pool_less[OF assms]
    by (simp add: sorted_wrt_map) (erule sorted_wrt_mono_rel[rotated], simp add: lex_less_append_same)
  show ?case
    unfolding product_repeat.simps
  proof (rule sorted_wrt_concat_map[where Q = "\<lambda>x x'. length x = length x' \<and> lex_less (pool_less pool) x x'"])
    show "sorted_wrt (lex_less (pool_less pool)) (map (\<lambda>y. x @ [y]) pool)" for x by (rule inner)
    show "sorted_wrt (\<lambda>x x'. length x = length x' \<and> lex_less (pool_less pool) x x') (product_repeat pool n)"
      using Suc by (rule sorted_wrt_mono_rel[rotated]) (simp add: set_product_repeat)
    show "lex_less (pool_less pool) a b"
      if "length x = length x' \<and> lex_less (pool_less pool) x x'"
        "a \<in> set (map (\<lambda>y. x @ [y]) pool)" "b \<in> set (map (\<lambda>y. x' @ [y]) pool)" for x x' a b
      using that by (auto intro: lex_less_append)
  qed
qed

lemma lex_less_irrefl: "(\<And>a. \<not> lt a a) \<Longrightarrow> \<not> lex_less lt x x"
  by (induction x) simp_all

lemma distinct_product_repeat:
  assumes "distinct pool"
  shows "distinct (product_repeat pool n)"
proof -
  have irrefl: "\<not> lex_less (pool_less pool) x x" for x
    by (rule lex_less_irrefl) (simp add: pool_less_def)
  have "sorted_wrt R xs \<Longrightarrow> (\<And>x. \<not> R x x) \<Longrightarrow> distinct xs" for R and xs :: "'a list list"
    by (induction xs) auto
  from this[OF sorted_wrt_product_repeat[OF assms]] irrefl show ?thesis by blast
qed

text \<open>
  Claim C2. With \<^verbatim>\<open>random_select\<close> false the enumeration returns, for a catalog of
  \<open>m\<close> keys and a repeat length \<open>L\<close>, exactly \<open>m ^ L\<close> compositions: every tuple of
  \<open>L\<close> keys once, in the lexicographic order of the keys' positions in the catalog, and
  the same list whatever the random draws of the run are.
\<close>

theorem exhaustive_enumeration:
  assumes "distinct (map fst monomers_dict)" and "0 \<le> length_repeat s"
  shows "case get_polymer_compositions s monomers_dict 0 draws of
           Some (Inr ps) \<Rightarrow>
             length ps = length monomers_dict ^ nat (length_repeat s)
             \<and> distinct ps
             \<and> set ps = {p. length p = nat (length_repeat s) \<and> set p \<subseteq> set (map fst monomers_dict)}
             \<and> sorted_wrt (lex_less (pool_less (map fst monomers_dict))) ps
             \<and> get_polymer_compositions s monomers_dict 0 draws' = Some (Inr ps)
         | _ \<Rightarrow> False"
  using assms
  by (simp add: get_polymer_compositions_def itertools_product_def length_product_repeat
      distinct_product_repeat set_product_repeat sorted_wrt_product_repeat)

theorem exhaustive_enumeration_witness:
  "distinct (map fst [(str ''A'', str ''c1ccccc1''), (str ''B'', str ''c1ccsc1'')])
   \<and> get_polymer_compositions
     \<lparr>session_name = str ''run'', length_repeat = 2, n_repeat = 1, n_confs = 1, solvent_info = []\<rparr>
     [(str ''A'', str ''c1ccccc1''), (str ''B'', str ''c1ccsc1'')] 0 []
   = Some (Inr [[str ''A'', str ''A''], [str ''A'', str ''B''], [str ''B'', str ''A''], [str ''B'', str ''B'']])
   \<and> length [[str ''A'', str ''A''], [str ''A'', str ''B''], [str ''B'', str ''A''], [str ''B'', str ''B'']] = (2::nat) ^ 2"
  using exhaustive_enumeration [of "[(str ''A'', str ''c1ccccc1''), (str ''B'', str ''c1ccsc1'')]"
      "\<lparr>session_name = str ''run'', length_repeat = 2, n_repeat = 1, n_confs = 1, solvent_info = []\<rparr>"
      "[]" "[]"]
  by (simp add: get_polymer_compositions_def itertools_product_def numeral_2_eq_2)

section \<open>The work-log as text\<close>

lemma is_space_SP [simp]: "is_space SP"
  by (simp add: is_space_def SP_def)

lemma is_space_LF [simp]: "is_space LF"
  by (simp add: is_space_def LF_def)

lemma is_space_CR [simp]: "is_space CR"
  by (simp add: is_space_def CR_def)

lemma is_space_TAB [simp]: "is_space TAB"
  by (simp add: is_space_def TAB_def)

lemma split_acc_nonspace:
  "list_all (\<lambda>c. \<not> is_space c) t \<Longrightarrow> split_acc cur (t @ rest) = split_acc (cur @ t) rest"
  by (induction t arbitrary: cur) simp_all

lemma split_acc_tokens:
  "is_space sp \<Longrightarrow> list_all token ts \<Longrightarrow> ts \<noteq> [] \<Longrightarrow>
   split_acc cur (join [sp] ts @ [LF]) = (cur @ hd ts) # tl ts"
proof (induction ts arbitrary: cur)
  case Nil
  then show ?case by simp
next
  case (Cons x xs)
  then have x: "list_all (\<lambda>c. \<not> is_space c) x" "x \<noteq> []"
    by (simp_all add: token_def)
  show ?case
  proof (cases xs)
    case Nil
    then show ?thesis
      using x split_acc_nonspace[of x cur "[LF]"] by simp
  next
    case (Cons y ys)
    have "split_acc cur (x @ [sp] @ join [sp] (y # ys) @ [LF])
          = split_acc (cur @ x) ([sp] @ join [sp] (y # ys) @ [LF])"
      using x split_acc_nonspace[of x cur] by simp
    also have "\<dots> = (cur @ x) # split_acc [] (join [sp] (y # ys) @ [LF])"
      using x \<open>is_space sp\<close> by simp
    also have "split_acc [] (join [sp] (y # ys) @ [LF]) = y # ys"
      using Cons.IH[of "[]"] Cons.prems Cons by simp
    finally show ?thesis using Cons by simp
  qed
qed

lemma py_split_line:
  assumes "is_space sp" and "list_all token ts"
  shows "py_split (join [sp] ts @ [LF]) = ts"
proof (cases ts)
  case Nil
  then show ?thesis by (simp add: py_split_def)
next
  case (Cons t ts')
  from split_acc_tokens[OF assms, of "[]"] Cons show ?thesis by (simp add: py_split_def)
qed

lemma universal_newlines_no_CR: "CR \<notin> set s \<Longrightarrow> universal_newlines s = s"
  by (induction s rule: universal_newlines.induct) auto

lemma lines_acc_line:
  "LF \<notin> set l \<Longrightarrow> lines_acc cur (l @ LF # rest) = (cur @ l @ [LF]) # lines_acc [] rest"
  by (induction l arbitrary: cur) auto

lemma set_join: "set (join sep ts) \<subseteq> set sep \<union> \<Union> (set ` set ts)"
  by (induction sep ts rule: join.induct) auto

lemma join_tokens_chars:
  assumes "list_all token ts" and "c \<in> set (join [sp] ts)"
  shows "c = sp \<or> \<not> is_space c"
proof -
  from set_join[of "[sp]" ts] assms(2) have "c = sp \<or> (\<exists>t\<in>set ts. c \<in> set t)"
    by auto
  with assms(1) show ?thesis
    by (auto simp: token_def list_all_iff)
qed

lemma control_chars_distinct [simp]:
  "LF \<noteq> SP" "CR \<noteq> SP" "CR \<noteq> LF" "TAB \<noteq> LF" "TAB \<noteq> CR" "SP \<noteq> LF" "SP \<noteq> CR"
  by (simp_all add: SP_def LF_def CR_def TAB_def)

lemma join_tokens_no_LF: "sp \<noteq> LF \<Longrightarrow> list_all token ts \<Longrightarrow> LF \<notin> set (join [sp] ts)"
  using join_tokens_chars[of ts LF sp] by auto

lemma join_tokens_no_CR: "sp \<noteq> CR \<Longrightarrow> list_all token ts \<Longrightarrow> CR \<notin> set (join [sp] ts)"
  using join_tokens_chars[of ts CR sp] by auto

lemma rows_text_no_CR:
  "sp \<noteq> CR \<Longrightarrow> list_all (list_all token) rows \<Longrightarrow> CR \<notin> set (rows_text sp rows)"
  by (induction rows) (auto simp: rows_text_def join_tokens_no_CR)

lemma lines_acc_rows_text:
  "sp \<noteq> LF \<Longrightarrow> list_all (list_all token) rows \<Longrightarrow>
   lines_acc [] (rows_text sp rows) = map (\<lambda>row. join [sp] row @ [LF]) rows"
proof (induction rows)
  case Nil
  show ?case by (simp add: rows_text_def)
next
  case (Cons row rows)
  then have "LF \<notin> set (join [sp] row)" by (simp add: join_tokens_no_LF)
  from lines_acc_line[OF this, of "[]" "rows_text sp rows"] Cons show ?case
    by (simp add: rows_text_def)
qed

lemma read_rows_rows_text:
  assumes "is_space sp" and "sp \<noteq> LF" and "sp \<noteq> CR" and "list_all (list_all token) rows"
  shows "read_rows (rows_text sp rows) = rows"
proof -
  have "file_lines (rows_text sp rows) = map (\<lambda>row. join [sp] row @ [LF]) rows"
    using assms
    by (simp add: file_lines_def universal_newlines_no_CR rows_text_no_CR lines_acc_rows_text)
  moreover have "map py_split (map (\<lambda>row. join [sp] row @ [LF]) rows) = rows"
    using assms(1,4) by (induction rows) (simp_all add: py_split_line)
  ultimately show ?thesis by (simp add: read_rows_def)
qed

lemma read_rows_work_log_text:
  "list_all (list_all token) ps \<Longrightarrow> read_rows (work_log_text ps) = ps"
  by (simp add: work_log_text_def read_rows_rows_text)

lemma work_log_text_append:
  "work_log_text (ps @ [p]) = work_log_text ps @ join [SP] p @ [LF]"
  by (simp add: work_log_text_def rows_text_def)

lemma pname_generated:
  "generate_polymer_result E s permutation monomers_dict name = Inr (polymer, repeat)
   \<Longrightarrow> pname polymer = name"
  by (auto simp: generate_polymer_result_def and_then_def split: sum.splits prod.splits)

lemma run_pipeline_eq:
  "run_pipeline E s permutation monomers_dict name cwd w
   = (Inr (), after_pipeline E s permutation monomers_dict name cwd w)"
proof (cases "generate_polymer_result E s permutation monomers_dict name")
  case (Inl e)
  then show ?thesis
    by (simp add: run_pipeline_def after_pipeline_def pipeline_outcome_def try_except_def bind_def
        generate_polymer_def started_def lift_def error_log_def remove_junk_def
        stages_upto_def pipeline_order_def)
next
  case (Inr pr)
  obtain polymer repeat where pr: "pr = (polymer, repeat)" by (cases pr)
  with Inr have n: "pname polymer = name" by (simp add: pname_generated)
  show ?thesis
    using Inr pr n
    by (simp add: run_pipeline_def after_pipeline_def pipeline_outcome_def try_except_def bind_def
        generate_polymer_def conformer_search_def xtb_opt_def xtb_calc_potentials_def
        stda_calc_excitation_def property_log_def
        started_def lift_def error_log_def remove_junk_def
        stages_upto_def pipeline_order_def split: sum.splits prod.splits)
qed

lemma makedirs_unless_exists_eq:
  "makedirs_unless_exists E path w =
     (if path \<in> set (dirs w) then (Inr (), w)
      else case mkdir_fault E path of
             None \<Rightarrow> (Inr (), w\<lparr>dirs := dirs w @ [path]\<rparr>)
           | Some n \<Rightarrow> (if n = EEXIST then (Inr (), w) else (Inl (OSError n), w)))"
  by (simp add: makedirs_unless_exists_def os_makedirs_def try_except_def raise_def return_def
      split: option.splits)

lemma temp_after_pipeline [simp]:
  "temp (after_pipeline E s permutation monomers_dict name cwd w) = temp w"
  by (simp add: after_pipeline_def split: sum.splits prod.splits)

lemma temp_makedirs [simp]: "temp (snd (makedirs_unless_exists E path w)) = temp w"
  by (simp add: makedirs_unless_exists_eq split: option.splits)

lemma temp_dispatch_unless_screened:
  "temp (snd (dispatch_unless_screened E s permutation monomers_dict screened w))
   = (if permutation \<notin> set screened \<and> rev permutation \<notin> set screened
      then temp w @ join [SP] permutation @ [LF] else temp w)"
  by (simp add: dispatch_unless_screened_def Let_def bind_def makedirs_unless_exists_eq
      run_pipeline_eq split: option.splits)

lemma split_acc_yields_tokens:
  "list_all (\<lambda>c. \<not> is_space c) cur \<Longrightarrow> list_all token (split_acc cur s)"
  by (induction s arbitrary: cur) (auto simp: token_def)

lemma py_split_yields_tokens: "list_all token (py_split s)"
  by (simp add: py_split_def split_acc_yields_tokens)

lemma read_rows_yields_tokens: "list_all (list_all token) (read_rows content)"
  using py_split_yields_tokens by (simp add: read_rows_def list_all_iff)

lemma canonical_step:
  fixes E :: "('m, 'c) env" and s :: session and monomers_dict :: "(pystr \<times> pystr) list"
  assumes "canonical w" and "list_all token permutation"
  defines "w' \<equiv> snd (screening_protocol E s permutation monomers_dict w)"
  shows "canonical w'"
    and "read_screened w' =
           (if permutation \<notin> set (read_screened w) \<and> rev permutation \<notin> set (read_screened w)
            then read_screened w @ [permutation] else read_screened w)"
proof -
  let ?scr = "read_screened w"
  have tok: "list_all (list_all token) ?scr"
    by (simp add: read_screened_def read_rows_yields_tokens)
  show r: "read_screened w' =
           (if permutation \<notin> set ?scr \<and> rev permutation \<notin> set ?scr
            then ?scr @ [permutation] else ?scr)"
  proof (cases "permutation \<notin> set ?scr \<and> rev permutation \<notin> set ?scr")
    case True
    then have "temp w' = work_log_text (?scr @ [permutation])"
      using assms(1)
      by (simp add: w'_def screening_protocol_def temp_dispatch_unless_screened canonical_def
          work_log_text_append)
    moreover have "list_all (list_all token) (?scr @ [permutation])"
      using tok assms(2) by simp
    ultimately have "read_rows (temp w') = ?scr @ [permutation]"
      by (simp add: read_rows_work_log_text)
    with True show ?thesis by (simp add: read_screened_def)
  next
    case False
    then have "temp w' = temp w"
      by (auto simp add: w'_def screening_protocol_def temp_dispatch_unless_screened)
    with False show ?thesis by (auto simp add: read_screened_def)
  qed
  show "canonical w'"
    using r assms(1)
    by (auto simp add: canonical_def w'_def screening_protocol_def temp_dispatch_unless_screened
        work_log_text_append)
qed

lemma symmetric_free_step:
  assumes "symmetric_free screened"
  shows "symmetric_free (if permutation \<notin> set screened \<and> rev permutation \<notin> set screened
                         then screened @ [permutation] else screened)"
  using assms by (auto simp: symmetric_free_def list_all_iff)

lemma walk_eq:
  "walk product i choice =
     (if i \<le> choice \<and> choice < i + length product then [product ! (choice - i)] else [])"
proof (induction product arbitrary: i)
  case Nil
  show ?case by simp
next
  case (Cons item rest)
  show ?case
  proof (cases "i = choice")
    case True
    then show ?thesis by (simp add: Cons)
  next
    case False
    then have "(i \<le> choice) = (Suc i \<le> choice)" by arith
    with False show ?thesis
      by (auto simp add: Cons Suc_diff_le nth_Cons')
  qed
qed

lemma walk_0: "walk product 0 choice = (if choice < length product then [product ! choice] else [])"
  by (simp add: walk_eq)

lemma sample_loop_Some:
  "sample_loop product counter k draws = Some ys \<Longrightarrow>
   length ys = nat (k - counter) \<and> set ys \<subseteq> set product"
proof (induction draws arbitrary: counter ys)
  case Nil
  then show ?case by (simp split: if_splits)
next
  case (Cons choice draws)
  show ?case
  proof (cases "counter < k")
    case False
    with Cons.prems show ?thesis by simp
  next
    case True
    show ?thesis
    proof (cases "choice < length product")
      case hit: True
      with True Cons.prems obtain later where
        l: "sample_loop product (counter + 1) k draws = Some later" "ys = product ! choice # later"
        by (auto simp: walk_0)
      from Cons.IH[OF l(1)] l(2) hit True show ?thesis by auto
    next
      case miss: False
      with True Cons.prems have "sample_loop product counter k draws = Some ys"
        by (auto simp: walk_0)
      from Cons.IH[OF this] show ?thesis .
    qed
  qed
qed

lemma sample_loop_returns:
  "nat (k - counter) \<le> length (filter (\<lambda>c. c < length product) draws) \<Longrightarrow>
   sample_loop product counter k draws \<noteq> None"
proof (induction draws arbitrary: counter)
  case Nil
  then show ?case by simp
next
  case (Cons choice draws)
  show ?case
  proof (cases "counter < k")
    case False
    then show ?thesis by simp
  next
    case True
    show ?thesis
    proof (cases "choice < length product")
      case hit: True
      with Cons.prems True
      have "nat (k - (counter + 1)) \<le> length (filter (\<lambda>c. c < length product) draws)"
        by simp
      from Cons.IH[OF this] hit True show ?thesis by (simp add: walk_0)
    next
      case miss: False
      with Cons.prems have "nat (k - counter) \<le> length (filter (\<lambda>c. c < length product) draws)"
        by simp
      from Cons.IH[OF this] miss True show ?thesis by (simp add: walk_0)
    qed
  qed
qed

section \<open>Symmetry deduplication\<close>

lemma dispatch_all_invariant:
  assumes "canonical w" and "symmetric_free (read_screened w)"
    and "list_all (list_all token) compositions"
  shows "canonical (snd (dispatch_all E s monomers_dict compositions w))
         \<and> symmetric_free (read_screened (snd (dispatch_all E s monomers_dict compositions w)))"
  using assms
proof (induction compositions arbitrary: w)
  case Nil
  then show ?case by (simp add: return_def)
next
  case (Cons c cs)
  let ?w1 = "snd (screening_protocol E s c monomers_dict w)"
  from Cons.prems have c: "list_all token c" and cs: "list_all (list_all token) cs"
    by simp_all
  have can: "canonical ?w1"
    using canonical_step(1)[OF Cons.prems(1) c] .
  have sym: "symmetric_free (read_screened ?w1)"
    using canonical_step(2)[OF Cons.prems(1) c, of E s monomers_dict]
      symmetric_free_step[OF Cons.prems(2), of c] by simp
  show ?case
  proof (cases "screening_protocol E s c monomers_dict w")
    case (Pair r w1)
    then have w1: "w1 = ?w1" by simp
    show ?thesis
    proof (cases r)
      case (Inl e)
      with Pair can sym show ?thesis by (simp add: bind_def)
    next
      case (Inr u)
      with Pair have "dispatch_all E s monomers_dict (c # cs) w
                      = dispatch_all E s monomers_dict cs w1"
        by (simp add: bind_def)
      with Cons.IH[OF _ _ cs, of w1] can sym w1 show ?thesis by simp
    qed
  qed
qed


lemma monomers_to_dict_distinct:
  "monomers_to_dict rows d = Inr monomers_dict \<Longrightarrow> distinct (map fst d) \<Longrightarrow>
   distinct (map fst monomers_dict)"
proof (induction rows arbitrary: d)
  case Nil
  then show ?case by simp
next
  case (Cons line rest)
  from Cons.prems(1) obtain i smiles where l: "line = [i, smiles]"
    by (auto split: list.splits)
  with Cons.IH[of "AList.update i smiles d"] Cons.prems show ?case
    by (simp add: distinct_update)
qed

lemma compositions_over_keys:
  assumes "get_polymer_compositions s monomers_dict random_select draws = Some (Inr ps)"
    and "p \<in> set ps"
  shows "set p \<subseteq> set (map fst monomers_dict)"
proof (cases "random_select = 0")
  case True
  with assms show ?thesis
    by (auto simp: get_polymer_compositions_def itertools_product_def set_product_repeat
        split: if_splits)
next
  case False
  with assms obtain product where
    pr: "itertools_product (map fst monomers_dict) (length_repeat s) = Inr product"
    and sl: "sample_loop product 0 random_select draws = Some ps"
    by (auto simp: get_polymer_compositions_def split: sum.splits)
  from sample_loop_Some[OF sl] assms(2) have "p \<in> set product" by auto
  with pr show ?thesis
    by (auto simp: itertools_product_def set_product_repeat split: if_splits)
qed







lemma call_alone:
  "snd (run_schedule E s monomers_dict [0, 0] ([Waiting permutation], w))
   = snd (screening_protocol E s permutation monomers_dict w)"
  by (simp add: call_step_def screening_protocol_def)

section \<open>One dispatch\<close>


lemma makedirs_frame [simp]:
  "stage_trace (snd (makedirs_unless_exists E path w)) = stage_trace w"
  "error_entries (snd (makedirs_unless_exists E path w)) = error_entries w"
  "screening_output (snd (makedirs_unless_exists E path w)) = screening_output w"
  "junk_removed (snd (makedirs_unless_exists E path w)) = junk_removed w"
  by (simp_all add: makedirs_unless_exists_eq split: option.splits)




lemma stages_upto_simps [simp]:
  "stages_upto GeneratePolymer = [GeneratePolymer]"
  "stages_upto ConformerSearch = [GeneratePolymer, ConformerSearch]"
  "stages_upto XtbOpt = [GeneratePolymer, ConformerSearch, XtbOpt]"
  "stages_upto XtbCalcPotentials = [GeneratePolymer, ConformerSearch, XtbOpt, XtbCalcPotentials]"
  "stages_upto StdaCalcExcitation = pipeline_order"
  by (simp_all add: stages_upto_def pipeline_order_def)








section \<open>The work-log over a session\<close>

lemma Session_init_temp:
  "Session_init E name lr nr nc solvent w0 = (Inr s, w) \<Longrightarrow> temp w = []"
  by (auto simp: Session_init_def bind_def return_def raise_def truncate_temp_def
      makedirs_unless_exists_eq split: option.splits if_splits prod.splits sum.splits)

lemma read_rows_empty [simp]: "read_rows [] = []"
  by (simp add: read_rows_def file_lines_def)

lemma temp_screening_protocol:
  "temp (snd (screening_protocol E s permutation monomers_dict w))
   = (if permutation \<notin> set (read_screened w) \<and> rev permutation \<notin> set (read_screened w)
      then temp w @ join [SP] permutation @ [LF] else temp w)"
  by (simp add: screening_protocol_def temp_dispatch_unless_screened)

lemma temp_dispatch_all_prefix:
  "take (length (temp w)) (temp (snd (dispatch_all E s monomers_dict compositions w))) = temp w"
proof (induction compositions arbitrary: w)
  case Nil
  show ?case by (simp add: return_def)
next
  case (Cons c cs)
  obtain r w1 where p: "screening_protocol E s c monomers_dict w = (r, w1)"
    by (cases "screening_protocol E s c monomers_dict w")
  then have w1: "w1 = snd (screening_protocol E s c monomers_dict w)" by simp
  have pre: "take (length (temp w)) (temp w1) = temp w"
    unfolding w1 by (simp add: temp_screening_protocol)
  show ?case
  proof (cases r)
    case (Inl e)
    with p pre show ?thesis by (simp add: bind_def)
  next
    case (Inr u)
    with p have d: "dispatch_all E s monomers_dict (c # cs) w = dispatch_all E s monomers_dict cs w1"
      by (simp add: bind_def)
    let ?t = "temp (snd (dispatch_all E s monomers_dict cs w1))"
    have "length (temp w) \<le> length (temp w1)"
      unfolding w1 by (simp add: temp_screening_protocol)
    then have "take (length (temp w)) ?t = take (length (temp w)) (take (length (temp w1)) ?t)"
      by (simp add: min_def)
    also have "\<dots> = take (length (temp w)) (temp w1)"
      using Cons.IH[of w1] by simp
    finally show ?thesis using pre d by simp
  qed
qed

lemma temp_output_sort: "temp (snd (output_sort s w)) = temp w"
  by (simp add: output_sort_def split: list.splits prod.splits)

text \<open>
  Claim C9. A session that has been constructed starts from an empty work-log, whatever a
  previous session left in it; afterwards a call of \<^verbatim>\<open>screening_protocol\<close> leaves the
  work-log as it is or appends the line of its composition, the sort pass does not touch
  it, and a sequence of dispatches, like a whole sequential screening, only extends it.
\<close>

theorem work_log_reset_then_append_only:
  "(Session_init E name lr nr nc solvent w0 = (Inr s0, w1)
      \<longrightarrow> temp w1 = [] \<and> read_screened w1 = [])
   \<and> temp (snd (screening_protocol E s permutation monomers_dict w))
       = (if permutation \<notin> set (read_screened w) \<and> rev permutation \<notin> set (read_screened w)
          then temp w @ join [SP] permutation @ [LF] else temp w)
   \<and> temp (snd (output_sort s w)) = temp w
   \<and> take (length (temp w)) (temp (snd (dispatch_all E s monomers_dict compositions w))) = temp w
   \<and> (case screen E s monomers_text random_select draws w of
         Some (r, w') \<Rightarrow> take (length (temp w)) (temp w') = temp w
       | None \<Rightarrow> True)"
proof -
  have "temp w' = [] \<and> read_screened w' = []"
    if "Session_init E name lr nr nc solvent w0 = (Inr s0, w')" for w'
    using Session_init_temp[OF that] by (simp add: read_screened_def)
  moreover have "take (length (temp w)) (temp w') = temp w"
    if "screen E s monomers_text random_select draws w = Some (r, w')" for r w'
  proof -
    have "take (length (temp w))
            (temp (snd (dispatch_all E s md cs (w\<lparr>screening_output := output_header E\<rparr>))))
          = temp w" for md cs
      using temp_dispatch_all_prefix[of "w\<lparr>screening_output := output_header E\<rparr>" E s md cs]
      by simp
    with that show ?thesis
      by (auto simp: screen_def Let_def split: sum.splits option.splits)
        (metis snd_conv)
  qed
  ultimately show ?thesis
    by (auto simp: temp_screening_protocol temp_output_sort temp_dispatch_all_prefix
        split: option.splits)
qed

lemma demo_Session_init:
  "Session_init (demo_env transcript_vip) (str ''run'') 2 1 1 None (fresh_world\<lparr>temp := str ''B A\<newline>''\<rparr>)
   = (Inr demo_session, fresh_world\<lparr>dirs := [str ''run'']\<rparr>)"
  by (simp add: Session_init_def bind_def return_def truncate_temp_def makedirs_unless_exists_eq
      demo_env_def fresh_world_def demo_session_def)

theorem work_log_reset_then_append_only_witness:
  "Session_init (demo_env transcript_vip) (str ''run'') 2 1 1 None (fresh_world\<lparr>temp := str ''B A\<newline>''\<rparr>)
     = (Inr demo_session, fresh_world\<lparr>dirs := [str ''run'']\<rparr>)
   \<and> temp (fresh_world\<lparr>dirs := [str ''run'']\<rparr>) = []
   \<and> read_screened (fresh_world\<lparr>dirs := [str ''run'']\<rparr>) = []"
  using work_log_reset_then_append_only[of "demo_env transcript_vip" "str ''run''" 2 1 1 None
      "fresh_world\<lparr>temp := str ''B A\<newline>''\<rparr>" demo_session "fresh_world\<lparr>dirs := [str ''run'']\<rparr>"]
    demo_Session_init
  by simp

section \<open>Palindromes\<close>


lemma count_list_distinct: "distinct xs \<Longrightarrow> x \<in> set xs \<Longrightarrow> count_list xs x = 1"
  by (induction xs) auto









section \<open>Session construction\<close>



section \<open>The sort pass\<close>


lemma set_sort_key_tokens:
  "list_all (list_all token) rows \<Longrightarrow> list_all (list_all token) (sort_key f rows)"
  by (simp add: list_all_iff)





section \<open>Random sampling\<close>

lemma sample_loop_eq:
  "nat (k - counter) \<le> length (filter (\<lambda>c. c < length product) draws) \<Longrightarrow>
   sample_loop product counter k draws
   = Some (map ((!) product) (take (nat (k - counter)) (filter (\<lambda>c. c < length product) draws)))"
proof (induction draws arbitrary: counter)
  case Nil
  then show ?case by simp
next
  case (Cons choice draws)
  show ?case
  proof (cases "counter < k")
    case False
    then show ?thesis by simp
  next
    case True
    show ?thesis
    proof (cases "choice < length product")
      case hit: True
      with Cons.prems True
      have "nat (k - (counter + 1)) \<le> length (filter (\<lambda>c. c < length product) draws)"
        by simp
      moreover have "nat (k - (counter + 1)) = nat (k - counter) - Suc 0"
        using True by simp
      moreover have "nat (k - counter) \<noteq> 0"
        using True by simp
      ultimately show ?thesis
        using Cons.IH[of "counter + 1"] hit True by (simp add: walk_0 take_Cons')
    next
      case miss: False
      with Cons.prems have "nat (k - counter) \<le> length (filter (\<lambda>c. c < length product) draws)"
        by simp
      from Cons.IH[OF this] miss True show ?thesis by (simp add: walk_0)
    qed
  qed
qed

lemma sample_loop_empty_product:
  "counter < k \<Longrightarrow> sample_loop [] counter k draws = None"
  by (induction draws) simp_all

lemma dispatch_all_log_subset:
  assumes "canonical w" and "list_all (list_all token) compositions"
  shows "set (read_screened (snd (dispatch_all E s monomers_dict compositions w)))
         \<subseteq> set (read_screened w) \<union> set compositions"
  using assms
proof (induction compositions arbitrary: w)
  case Nil
  then show ?case by (simp add: return_def)
next
  case (Cons c cs)
  obtain r w1 where p: "screening_protocol E s c monomers_dict w = (r, w1)"
    by (cases "screening_protocol E s c monomers_dict w")
  then have w1: "w1 = snd (screening_protocol E s c monomers_dict w)" by simp
  from Cons.prems have c: "list_all token c" and cs: "list_all (list_all token) cs"
    by simp_all
  have can: "canonical w1"
    unfolding w1 using canonical_step(1)[OF Cons.prems(1) c] .
  have scr: "set (read_screened w1) \<subseteq> set (read_screened w) \<union> {c}"
    unfolding w1 using canonical_step(2)[OF Cons.prems(1) c, of E s monomers_dict] by auto
  show ?case
  proof (cases r)
    case (Inl e)
    with p scr show ?thesis by (auto simp add: bind_def)
  next
    case (Inr u)
    with p have "dispatch_all E s monomers_dict (c # cs) w = dispatch_all E s monomers_dict cs w1"
      by (simp add: bind_def)
    with Cons.IH[OF can cs] scr show ?thesis by auto
  qed
qed

lemma random_compositions_eq:
  assumes "0 \<le> length_repeat s" and "0 < random_select"
    and "nat random_select
           \<le> length (filter (\<lambda>c. c < length monomers_dict ^ nat (length_repeat s)) draws)"
  shows "get_polymer_compositions s monomers_dict random_select draws
         = Some (Inr (map ((!) (product_repeat (map fst monomers_dict) (nat (length_repeat s))))
                   (take (nat random_select)
                      (filter (\<lambda>c. c < length monomers_dict ^ nat (length_repeat s)) draws))))"
  using assms
    sample_loop_eq[of random_select 0 "product_repeat (map fst monomers_dict) (nat (length_repeat s))"
      draws]
  by (simp add: get_polymer_compositions_def itertools_product_def length_product_repeat)

lemma demo_fresh: "canonical fresh_world \<and> read_screened fresh_world = []"
  by (simp add: canonical_def read_screened_def fresh_world_def work_log_text_def rows_text_def)

theorem random_sampling_distinct_counterexample:
  "(2::int) \<le> 2 ^ 1
   \<and> get_polymer_compositions demo_session1 [(str ''A'', str ''c1ccccc1''), (str ''B'', str ''c1ccsc1'')] 2 [0, 0]
       = Some (Inr [[str ''A''], [str ''A'']])
   \<and> map_option (\<lambda>(r, w'). (r, read_screened w'))
        (screen (demo_env transcript_vip) demo_session1 (str ''A c1ccccc1\<newline>B c1ccsc1\<newline>'') 2 [0, 0]
           fresh_world)
      = Some (Inr (), [[str ''A'']])
   \<and> length [[str ''A'']] \<noteq> nat 2"
  by code_simp

text \<open>
  Claim C4, amended. A sample count \<open>k\<close> greater than the size of the product space is
  not rejected: the enumeration never raises for it. Over a non-empty product space it
  goes on drawing until it has yielded \<open>k\<close> compositions, some of them more than once;
  over an empty one the loop yields nothing and does not return, however many draws it is
  given.
\<close>

theorem oversized_sample_count_not_rejected:
  assumes "0 \<le> length_repeat s"
    and "int (length monomers_dict ^ nat (length_repeat s)) < random_select"
  shows "(\<forall>e. get_polymer_compositions s monomers_dict random_select draws \<noteq> Some (Inl e))
         \<and> (nat random_select
               \<le> length (filter (\<lambda>c. c < length monomers_dict ^ nat (length_repeat s)) draws) \<longrightarrow>
              (case get_polymer_compositions s monomers_dict random_select draws of
                 Some (Inr ys) \<Rightarrow> length ys = nat random_select \<and> \<not> distinct ys
               | _ \<Rightarrow> False))
         \<and> (length monomers_dict ^ nat (length_repeat s) = 0 \<longrightarrow>
              get_polymer_compositions s monomers_dict random_select draws = None)"
proof (intro conjI allI impI)
  let ?product = "product_repeat (map fst monomers_dict) (nat (length_repeat s))"
  have k: "0 < random_select"
    using assms(2) by (smt (verit) of_nat_0_le_iff)
  have gp: "get_polymer_compositions s monomers_dict random_select draws
            = map_option Inr (sample_loop ?product 0 random_select draws)"
    using assms(1) k by (simp add: get_polymer_compositions_def itertools_product_def)
  show "get_polymer_compositions s monomers_dict random_select draws \<noteq> Some (Inl e)" for e
    unfolding gp by auto
  show "case get_polymer_compositions s monomers_dict random_select draws of
          Some (Inr ys) \<Rightarrow> length ys = nat random_select \<and> \<not> distinct ys
        | _ \<Rightarrow> False"
    if enough: "nat random_select
                  \<le> length (filter (\<lambda>c. c < length monomers_dict ^ nat (length_repeat s)) draws)"
  proof -
    from sample_loop_returns[of random_select 0 ?product draws] enough
    obtain ys where ys: "sample_loop ?product 0 random_select draws = Some ys"
      by (auto simp: length_product_repeat)
    from sample_loop_Some[OF ys] have len: "length ys = nat random_select"
      and sub: "set ys \<subseteq> set ?product"
      by simp_all
    have "\<not> distinct ys"
    proof
      assume "distinct ys"
      then have "length ys = card (set ys)" by (simp add: distinct_card)
      also have "\<dots> \<le> card (set ?product)" using sub by (simp add: card_mono)
      also have "\<dots> \<le> length ?product" by (rule card_length)
      finally have "nat random_select \<le> length monomers_dict ^ nat (length_repeat s)"
        using len by (simp only: length_product_repeat length_map)
      moreover have "length monomers_dict ^ nat (length_repeat s) < nat random_select"
        using assms(2) by (simp only: zless_nat_eq_int_zless)
      ultimately show False by linarith
    qed
    with ys len show ?thesis by (simp add: gp)
  qed
  show "get_polymer_compositions s monomers_dict random_select draws = None"
    if "length monomers_dict ^ nat (length_repeat s) = 0"
  proof -
    from that have "length ?product = 0" by (simp add: length_product_repeat)
    then have "?product = []" by simp
    with k show ?thesis
      unfolding gp by (simp add: sample_loop_empty_product)
  qed
qed

theorem oversized_sample_count_not_rejected_witness:
  "int (length [(str ''A'', str ''c1ccccc1'')] ^ nat (length_repeat demo_session1)) < 2
   \<and> get_polymer_compositions demo_session1 [(str ''A'', str ''c1ccccc1'')] 2 [0, 1, 0]
      = Some (Inr [[str ''A''], [str ''A'']])
   \<and> \<not> distinct [[str ''A''], [str ''A'']]
   \<and> int (length ([] :: (pystr \<times> pystr) list) ^ nat (length_repeat demo_session1)) < 2
   \<and> get_polymer_compositions demo_session1 [] 2 [0, 0, 0] = None"
proof -
  have L: "0 \<le> length_repeat demo_session1"
    by (simp add: demo_session1_def demo_session_def)
  have one: "int (length [(str ''A'', str ''c1ccccc1'')] ^ nat (length_repeat demo_session1)) < 2"
    and none: "int (length ([] :: (pystr \<times> pystr) list) ^ nat (length_repeat demo_session1)) < 2"
    by (simp_all add: demo_session1_def demo_session_def)
  have g: "get_polymer_compositions demo_session1 [(str ''A'', str ''c1ccccc1'')] 2 [0, 1, 0]
           = Some (Inr [[str ''A''], [str ''A'']])"
    by code_simp
  from oversized_sample_count_not_rejected[OF L one, of "[0, 1, 0]"]
    oversized_sample_count_not_rejected[OF L none, of "[0, 0, 0]"] one none g
  show ?thesis
    by (simp add: demo_session1_def demo_session_def)
qed

theorem oversized_sample_count_counterexample:
  "(2::int) > 1 ^ 1
   \<and> get_polymer_compositions demo_session1 [(str ''A'', str ''c1ccccc1'')] 2 [0, 1, 0]
      = Some (Inr [[str ''A''], [str ''A'']])
   \<and> map_option (\<lambda>(r, w'). (r, read_screened w'))
        (screen (demo_env transcript_vip) demo_session1 (str ''A c1ccccc1\<newline>'') 2 [0, 1, 0] fresh_world)
      = Some (Inr (), [[str ''A'']])"
  by code_simp

lemma positions_of_count:
  "length (filter (\<lambda>c. xs ! c = p) [0..<length xs]) = count_list xs p"
proof (induction xs rule: rev_induct)
  case Nil
  show ?case by simp
next
  case (snoc x xs)
  have "filter (\<lambda>c. (xs @ [x]) ! c = p) [0..<length xs] = filter (\<lambda>c. xs ! c = p) [0..<length xs]"
    by (rule filter_cong) (simp_all add: nth_append)
  with snoc show ?case by simp
qed

lemma one_position_each:
  assumes "distinct product" and "p \<in> set product"
  shows "length (filter (\<lambda>c. walk product 0 c = [p]) [0..<length product]) = 1"
proof -
  have "filter (\<lambda>c. walk product 0 c = [p]) [0..<length product]
        = filter (\<lambda>c. product ! c = p) [0..<length product]"
    by (rule filter_cong) (simp_all add: walk_0)
  with assms show ?thesis
    by (simp add: positions_of_count count_list_distinct)
qed

text \<open>
  Claim C3, amended. For every catalog of size \<open>m\<close>, repeat length \<open>L\<close> and requested
  sample count \<open>k\<close> with \<open>1 \<le> k \<le> m ^ L\<close>, random sampling whose draws are positions
  of the product space yields exactly \<open>k\<close> compositions, each the element of the product
  space at a drawn position; every composition of the product space is the element of
  exactly one position, so positions drawn uniformly give compositions drawn uniformly.
  The drawing is with replacement: the final dispatched set of a sequential run from an
  empty work-log holds only yielded compositions, with no duplicates among them, and at
  most \<open>k\<close> of them.
\<close>

theorem random_sampling_with_replacement:
  assumes "distinct (map fst monomers_dict)" and "0 \<le> length_repeat s"
    and "1 \<le> random_select"
    and "random_select \<le> int (length monomers_dict ^ nat (length_repeat s))"
    and "list_all (\<lambda>c. c < length monomers_dict ^ nat (length_repeat s)) draws"
    and "nat random_select \<le> length draws"
  shows "case get_polymer_compositions s monomers_dict random_select draws of
           Some (Inr ys) \<Rightarrow>
             ys = map ((!) (product_repeat (map fst monomers_dict) (nat (length_repeat s))))
                    (take (nat random_select) draws)
             \<and> length ys = nat random_select
             \<and> (\<forall>p\<in>set (product_repeat (map fst monomers_dict) (nat (length_repeat s))).
                   length (filter
                     (\<lambda>c. walk (product_repeat (map fst monomers_dict) (nat (length_repeat s))) 0 c
                            = [p])
                     [0..<length monomers_dict ^ nat (length_repeat s)]) = 1)
             \<and> (canonical w \<and> read_screened w = [] \<and> list_all token (map fst monomers_dict) \<longrightarrow>
                  symmetric_free (read_screened (snd (dispatch_all E s monomers_dict ys w)))
                  \<and> set (read_screened (snd (dispatch_all E s monomers_dict ys w))) \<subseteq> set ys
                  \<and> length (read_screened (snd (dispatch_all E s monomers_dict ys w)))
                      \<le> nat random_select)
         | _ \<Rightarrow> False"
proof -
  let ?product = "product_repeat (map fst monomers_dict) (nat (length_repeat s))"
  let ?n = "length monomers_dict ^ nat (length_repeat s)"
  let ?ys = "map ((!) ?product) (take (nat random_select) draws)"
  have all_in: "filter (\<lambda>c. c < ?n) draws = draws"
    using assms(5) by (simp add: list_all_iff)
  have k: "0 < random_select" using assms(3) by simp
  have g: "get_polymer_compositions s monomers_dict random_select draws = Some (Inr ?ys)"
    using random_compositions_eq[OF assms(2) k, of monomers_dict draws] assms(6)
    by (simp add: all_in)
  have len: "length ?ys = nat random_select"
    using assms(6) by simp
  have uniform: "\<forall>p\<in>set ?product. length (filter (\<lambda>c. walk ?product 0 c = [p]) [0..<?n]) = 1"
    using one_position_each[OF distinct_product_repeat[OF assms(1), of "nat (length_repeat s)"]]
    by (simp add: length_product_repeat)
  have "symmetric_free (read_screened (snd (dispatch_all E s monomers_dict ?ys w)))
        \<and> set (read_screened (snd (dispatch_all E s monomers_dict ?ys w))) \<subseteq> set ?ys
        \<and> length (read_screened (snd (dispatch_all E s monomers_dict ?ys w))) \<le> nat random_select"
    if w: "canonical w" "read_screened w = []" and keys: "list_all token (map fst monomers_dict)"
  proof -
    let ?log = "read_screened (snd (dispatch_all E s monomers_dict ?ys w))"
    have tok: "list_all (list_all token) ?ys"
      using compositions_over_keys[OF g] keys by (auto simp: list_all_iff)
    have sym: "symmetric_free ?log"
      using dispatch_all_invariant[OF w(1) _ tok, of E s monomers_dict] w(2)
      by (simp add: symmetric_free_def)
    have sub: "set ?log \<subseteq> set ?ys"
      using dispatch_all_log_subset[OF w(1) tok, of E s monomers_dict] w(2) by simp
    from sym have "distinct ?log" by (simp add: symmetric_free_def)
    then have "length ?log = card (set ?log)" by (simp add: distinct_card)
    also have "\<dots> \<le> card (set ?ys)" using sub by (simp add: card_mono)
    also have "\<dots> \<le> length ?ys" by (rule card_length)
    finally show ?thesis using sym sub len by simp
  qed
  with g len uniform show ?thesis by simp
qed

theorem random_sampling_with_replacement_witness:
  "distinct (map fst [(str ''A'', str ''c1ccccc1''), (str ''B'', str ''c1ccsc1'')])
   \<and> (2::int) \<le> int (length [(str ''A'', str ''c1ccccc1''), (str ''B'', str ''c1ccsc1'')]
                        ^ nat (length_repeat demo_session1))
   \<and> get_polymer_compositions demo_session1
        [(str ''A'', str ''c1ccccc1''), (str ''B'', str ''c1ccsc1'')] 2 [1, 0]
      = Some (Inr [[str ''B''], [str ''A'']])
   \<and> length (read_screened (snd (dispatch_all (demo_env transcript_vip) demo_session1
        [(str ''A'', str ''c1ccccc1''), (str ''B'', str ''c1ccsc1'')] [[str ''B''], [str ''A'']]
        fresh_world))) \<le> 2"
proof -
  have d: "distinct (map fst [(str ''A'', str ''c1ccccc1''), (str ''B'', str ''c1ccsc1'')])"
    by simp
  have L: "0 \<le> length_repeat demo_session1"
    and k: "(2::int) \<le> int (length [(str ''A'', str ''c1ccccc1''), (str ''B'', str ''c1ccsc1'')]
                              ^ nat (length_repeat demo_session1))"
    and dr: "list_all (\<lambda>c. c < length [(str ''A'', str ''c1ccccc1''), (str ''B'', str ''c1ccsc1'')]
                                ^ nat (length_repeat demo_session1)) [1, 0]"
    by (simp_all add: demo_session1_def demo_session_def)
  have g: "get_polymer_compositions demo_session1
             [(str ''A'', str ''c1ccccc1''), (str ''B'', str ''c1ccsc1'')] 2 [1, 0]
           = Some (Inr [[str ''B''], [str ''A'']])"
    by code_simp
  have keys: "list_all token (map fst [(str ''A'', str ''c1ccccc1''), (str ''B'', str ''c1ccsc1'')])"
    by (simp add: token_def is_space_def str_def)
  have pre: "1 \<le> (2::int)" "nat 2 \<le> length [1::nat, 0]"
    by simp_all
  note th = random_sampling_with_replacement[OF d L pre(1) k dr pre(2), where w = fresh_world
      and E = "demo_env transcript_vip", unfolded g option.case sum.case]
  have start: "canonical fresh_world \<and> read_screened fresh_world = []
      \<and> list_all token (map fst [(str ''A'', str ''c1ccccc1''), (str ''B'', str ''c1ccsc1'')])"
    using demo_fresh keys by simp
  from th[THEN conjunct2, THEN conjunct2, THEN conjunct2, THEN mp, OF start,
      THEN conjunct2, THEN conjunct2]
  have "length (read_screened (snd (dispatch_all (demo_env transcript_vip) demo_session1
        [(str ''A'', str ''c1ccccc1''), (str ''B'', str ''c1ccsc1'')] [[str ''B''], [str ''A'']]
        fresh_world))) \<le> nat 2" .
  then show ?thesis
    using d k g by simp
qed

section \<open>Parsing a transcript\<close>

lemma find_from_absent:
  "(find_from s sub i = - 1) = (\<not> (\<exists>pre post. s = pre @ sub @ post))"
proof (induction s arbitrary: i)
  case Nil
  show ?case by auto
next
  case (Cons c cs)
  show ?case
  proof (cases "take (length sub) (c # cs) = sub")
    case True
    then have "c # cs = [] @ sub @ drop (length sub) (c # cs)"
      by (metis append_Nil append_take_drop_id)
    then have "\<exists>pre post. c # cs = pre @ sub @ post" by blast
    with True show ?thesis by simp
  next
    case False
    have "(\<exists>pre post. c # cs = pre @ sub @ post) = (\<exists>pre post. cs = pre @ sub @ post)"
    proof
      assume "\<exists>pre post. c # cs = pre @ sub @ post"
      then obtain pre post where e: "c # cs = pre @ sub @ post" by blast
      show "\<exists>pre post. cs = pre @ sub @ post"
      proof (cases pre)
        case Nil
        with e have "take (length sub) (c # cs) = sub" by simp
        with False show ?thesis by simp
      next
        case (Cons a pre')
        with e have "cs = pre' @ sub @ post" by simp
        then show ?thesis by blast
      qed
    next
      assume "\<exists>pre post. cs = pre @ sub @ post"
      then obtain pre post where "cs = pre @ sub @ post" by blast
      then have "c # cs = (c # pre) @ sub @ post" by simp
      then show "\<exists>pre post. c # cs = pre @ sub @ post" by blast
    qed
    with False Cons.IH[of "Suc i"] show ?thesis by simp
  qed
qed

lemma length_split_acc: "length (split_acc cur s) \<le> (if cur = [] then 0 else 1) + length s"
proof (induction s arbitrary: cur)
  case Nil
  show ?case by simp
next
  case (Cons a s)
  from Cons.IH[of "[]"] Cons.IH[of "cur @ [a]"] show ?case
    by (simp split: if_splits)
qed

lemma length_py_split: "length (py_split s) \<le> length s"
  using length_split_acc[of "[]" s] by (simp add: py_split_def)

text \<open>
  A transcript in which the marker phrase does not occur: \<^verbatim>\<open>find\<close> returns \<^verbatim>\<open>-1\<close>, the
  slice \<^verbatim>\<open>output[-1:]\<close> holds at most the last character, hence at most one token, and
  reading the token at an offset of one or more raises \<^verbatim>\<open>IndexError\<close>. The offsets of the
  stages are 4, 13 and 15.
\<close>

theorem missing_marker_raises:
  assumes "\<not> (\<exists>pre post. output = pre @ marker @ post)" and "0 < k"
  shows "token_after output marker k = Inl IndexError"
proof -
  have "py_find output marker = - 1"
    using assms(1) by (simp add: py_find_def find_from_absent)
  moreover have "nat (max 0 (int (length output) - 1)) = length output - 1"
    by (simp add: max_def nat_diff_distrib')
  ultimately
  have "token_after output marker k = py_item (py_split (drop (length output - 1) output)) k"
    by (simp add: token_after_def py_slice_from_def norm_index_def)
  moreover have "length (py_split (drop (length output - 1) output)) \<le> 1"
    using length_py_split[of "drop (length output - 1) output"] by simp
  ultimately show ?thesis
    using assms(2) by (simp add: py_item_def)
qed

theorem missing_marker_raises_witness:
  "py_find (str ''xtb: abnormal termination'') (str ''delta SCC IP'') = - 1
   \<and> token_after (str ''xtb: abnormal termination'') (str ''delta SCC IP'') 4 = Inl IndexError
   \<and> token_after transcript_vip (str ''delta SCC IP'') 4 = Inr (str ''7.0440'')"
proof -
  have f: "py_find (str ''xtb: abnormal termination'') (str ''delta SCC IP'') = - 1"
    by code_simp
  then have "\<not> (\<exists>pre post. (str ''xtb: abnormal termination'') = pre @ str ''delta SCC IP'' @ post)"
    unfolding py_find_def find_from_absent .
  from missing_marker_raises[OF this, of 4] f
  have "token_after (str ''xtb: abnormal termination'') (str ''delta SCC IP'') 4 = Inl IndexError"
    by simp
  moreover have "token_after transcript_vip (str ''delta SCC IP'') 4 = Inr (str ''7.0440'')"
    by code_simp
  ultimately show ?thesis using f by simp
qed

end
